theory Spec2Isabelle
  imports Main "HOL-Library.AList"
begin

section \<open>The Sequential Thinking server: the thought ledger\<close>

text \<open>
  The embedding follows \<^verbatim>\<open>src/src/mcp/linear-server.ts\<close>, lines 712 to 870: the
  interface \<^verbatim>\<open>ThoughtEntry\<close>, the two module-level variables \<^verbatim>\<open>thoughtHistory\<close> and
  \<^verbatim>\<open>branches\<close>, the function \<^verbatim>\<open>processThought\<close> and the tool \<^verbatim>\<open>sequentialthinking\<close>
  with its zod input schema.

  Numbers: the schema admits only integral numbers, and the code only compares and copies
  them, so a \<^verbatim>\<open>number\<close> field is an \<^typ>\<open>int\<close>. Strings are compared for equality and
  tested for emptiness only (and read as decimal numerals by the property ordering of
  \<^verbatim>\<open>Object.keys\<close>), so a JavaScript string is a \<^typ>\<open>string\<close>. An entry object is built
  afresh by every call of the tool and is written to only before it is stored, so the
  references held by \<^verbatim>\<open>thoughtHistory\<close> and \<^verbatim>\<open>branches\<close> are modelled by values.
  Exhaustion of memory is not modelled.
\<close>

subsection \<open>Data\<close>

record ThoughtEntry =
  thought :: string
  thoughtNumber :: int
  totalThoughts :: int
  isRevision :: bool
  revisesThought :: "int option"
  branchFromThought :: "int option"
  branchId :: "string option"
  needsMoreThoughts :: bool

text \<open>
  \<^verbatim>\<open>const branches: Record<string, ThoughtEntry[]> = {}\<close> is an ordinary JavaScript object:
  its own properties, kept in the order of their creation, and the prototype
  \<^verbatim>\<open>Object.prototype\<close>, whose properties every read \<^verbatim>\<open>branches[k]\<close> falls back to. The
  names below are the members of \<^verbatim>\<open>Object.prototype\<close> in Node.js, the runtime named by the
  first line of the program.
\<close>

type_synonym jsobject = "(string \<times> ThoughtEntry list) list"

definition Object_prototype_keys :: "string list" where
  "Object_prototype_keys =
     [''constructor'', ''__defineGetter__'', ''__defineSetter__'', ''hasOwnProperty'',
      ''__lookupGetter__'', ''__lookupSetter__'', ''isPrototypeOf'',
      ''propertyIsEnumerable'', ''toString'', ''valueOf'', ''__proto__'',
      ''toLocaleString'']"

text \<open>
  What a read \<^verbatim>\<open>branches[k]\<close> yields: \<^verbatim>\<open>undefined\<close>, an array stored by this program, or a
  member inherited from \<^verbatim>\<open>Object.prototype\<close> (a function, or for \<^verbatim>\<open>__proto__\<close> the prototype
  object itself: truthy, and without a method \<^verbatim>\<open>push\<close>).
\<close>

datatype jsvalue = Undefined | Array "ThoughtEntry list" | Inherited

definition get_prop :: "jsobject \<Rightarrow> string \<Rightarrow> jsvalue" where
  "get_prop obj k =
     (case map_of obj k of
        Some es \<Rightarrow> Array es
      | None \<Rightarrow> if k \<in> set Object_prototype_keys then Inherited else Undefined)"

fun truthy :: "jsvalue \<Rightarrow> bool" where
  "truthy Undefined = False"
| "truthy (Array es) = True"
| "truthy Inherited = True"

text \<open>
  A write \<^verbatim>\<open>branches[k] = v\<close> to a name that is not inherited, and a \<^verbatim>\<open>push\<close> on the array
  stored under \<^verbatim>\<open>k\<close>: an existing own property keeps its place, a new one goes last.
\<close>

definition set_prop :: "jsobject \<Rightarrow> string \<Rightarrow> ThoughtEntry list \<Rightarrow> jsobject" where
  "set_prop obj k v = AList.update k v obj"

text \<open>
  \<^verbatim>\<open>Object.keys\<close> lists the own property names: first those that are array indices (the
  canonical decimal numerals of the integers from 0 to \<open>2\<^sup>3\<^sup>2 - 2\<close>) in ascending numeric
  order, then all others in the order of their creation.
\<close>

definition is_digit :: "char \<Rightarrow> bool" where
  "is_digit c = (c \<in> set ''0123456789'')"

definition digit_val :: "char \<Rightarrow> int" where
  "digit_val c = of_char c - 48"

definition dec_val :: "string \<Rightarrow> int" where
  "dec_val s = foldl (\<lambda>n c. 10 * n + digit_val c) 0 s"

definition is_array_index :: "string \<Rightarrow> bool" where
  "is_array_index s =
     (case s of
        [] \<Rightarrow> False
      | c # cs \<Rightarrow> list_all is_digit s \<and> (if c = CHR ''0'' then cs = [] else True)
                 \<and> dec_val s < 2 ^ 32 - 1)"

definition Object_keys :: "jsobject \<Rightarrow> string list" where
  "Object_keys obj =
     (let ks = map fst obj
      in sort_key dec_val (filter is_array_index ks) @
         filter (\<lambda>k. \<not> is_array_index k) ks)"

record ledger =
  thoughtHistory :: "ThoughtEntry list"
  branches :: jsobject

definition empty_ledger :: ledger where
  "empty_ledger = \<lparr>thoughtHistory = [], branches = []\<rparr>"

text \<open>The object returned by \<^verbatim>\<open>processThought\<close> (lines 749 to 755).\<close>

record ProgressSummary =
  out_thoughtNumber :: int
  out_totalThoughts :: int
  nextThoughtNeeded :: bool
  out_branches :: "string list"
  thoughtHistoryLength :: nat

datatype error = ValidationError | TypeError

subsection \<open>processThought\<close>

text \<open>
  Lines 741 to 747. The guard \<^verbatim>\<open>if (input.branchId)\<close> is false for \<^verbatim>\<open>null\<close> and for the empty
  string. \<^verbatim>\<open>branches[input.branchId]!.push(input)\<close> throws a \<^verbatim>\<open>TypeError\<close> when the value read
  has no method \<^verbatim>\<open>push\<close>.
\<close>

definition track_branch :: "ThoughtEntry \<Rightarrow> jsobject \<Rightarrow> error + jsobject" where
  "track_branch input obj =
     (case branchId input of
        None \<Rightarrow> Inr obj
      | Some b \<Rightarrow>
          if b = [] then Inr obj
          else
            (let obj1 = (if \<not> truthy (get_prop obj b) then set_prop obj b [] else obj)
             in case get_prop obj1 b of
                  Array es \<Rightarrow> Inr (set_prop obj1 b (es @ [input]))
                | Undefined \<Rightarrow> Inl TypeError
                | Inherited \<Rightarrow> Inl TypeError))"

text \<open>
  Lines 726 to 756, on an explicit ledger. An exception leaves the function after
  \<^verbatim>\<open>thoughtHistory.push(input)\<close> has run.
\<close>

definition processThought ::
  "ThoughtEntry \<Rightarrow> ledger \<Rightarrow> (error + ProgressSummary) \<times> ledger" where
  "processThought input0 s =
     (let input = (if thoughtNumber input0 > totalThoughts input0
                   then input0\<lparr>totalThoughts := thoughtNumber input0\<rparr> else input0);
          s1 = s\<lparr>thoughtHistory := thoughtHistory s @ [input]\<rparr>
      in case track_branch input (branches s1) of
           Inl e \<Rightarrow> (Inl e, s1)
         | Inr obj \<Rightarrow>
             (let s2 = s1\<lparr>branches := obj\<rparr>
              in (Inr \<lparr>out_thoughtNumber = thoughtNumber input,
                       out_totalThoughts = totalThoughts input,
                       nextThoughtNeeded = needsMoreThoughts input,
                       out_branches = Object_keys (branches s2),
                       thoughtHistoryLength = length (thoughtHistory s2)\<rparr>, s2)))"

subsection \<open>The tool and its input schema\<close>

text \<open>
  The arguments of a call are a JSON object: a partial map from field names to JSON
  values. A JSON number is either integral or not; the other kinds of value (\<^verbatim>\<open>null\<close>,
  arrays, objects) are rejected by every field of the schema alike.
\<close>

datatype json = JString string | JInteger int | JNonInteger | JBoolean bool | JOther

type_synonym args = "string \<rightharpoonup> json"

text \<open>The zod schemas used at lines 780 to 828, on the value found under a key.\<close>

definition z_string :: "json option \<Rightarrow> error + string" where
  "z_string v = (case v of Some (JString s) \<Rightarrow> Inr s | _ \<Rightarrow> Inl ValidationError)"

definition z_number_int_min :: "int \<Rightarrow> json option \<Rightarrow> error + int" where
  "z_number_int_min m v =
     (case v of
        Some (JInteger n) \<Rightarrow> if m \<le> n then Inr n else Inl ValidationError
      | _ \<Rightarrow> Inl ValidationError)"

definition z_boolean :: "json option \<Rightarrow> error + bool" where
  "z_boolean v = (case v of Some (JBoolean b) \<Rightarrow> Inr b | _ \<Rightarrow> Inl ValidationError)"

definition z_optional ::
  "(json option \<Rightarrow> error + 'a) \<Rightarrow> json option \<Rightarrow> error + 'a option" where
  "z_optional p v =
     (case v of
        None \<Rightarrow> Inr None
      | Some _ \<Rightarrow> (case p v of Inl e \<Rightarrow> Inl e | Inr x \<Rightarrow> Inr (Some x)))"

definition z_default ::
  "'a \<Rightarrow> (json option \<Rightarrow> error + 'a option) \<Rightarrow> json option \<Rightarrow> error + 'a" where
  "z_default d p v =
     (case v of
        None \<Rightarrow> Inr d
      | Some _ \<Rightarrow> (case p v of Inl e \<Rightarrow> Inl e
                   | Inr None \<Rightarrow> Inr d
                   | Inr (Some x) \<Rightarrow> Inr x))"

definition and_then :: "error + 'a \<Rightarrow> ('a \<Rightarrow> error + 'b) \<Rightarrow> error + 'b" where
  "and_then r f = (case r of Inl e \<Rightarrow> Inl e | Inr x \<Rightarrow> f x)"

text \<open>
  The schema (lines 780 to 828) applied to the arguments, and the entry built from the
  parsed fields (lines 840 to 849): \<^verbatim>\<open>isRevision || false\<close>, \<^verbatim>\<open>revisesThought ?? null\<close>,
  \<^verbatim>\<open>branchFromThought ?? null\<close>, \<^verbatim>\<open>branchId ?? null\<close>,
  \<^verbatim>\<open>needsMoreThoughts: nextThoughtNeeded\<close>.
\<close>

definition parse_args :: "args \<Rightarrow> error + ThoughtEntry" where
  "parse_args a =
     and_then (z_string (a ''thought'')) (\<lambda>t.
     and_then (z_number_int_min 1 (a ''thoughtNumber'')) (\<lambda>tn.
     and_then (z_number_int_min 1 (a ''totalThoughts'')) (\<lambda>tt.
     and_then (z_boolean (a ''nextThoughtNeeded'')) (\<lambda>nx.
     and_then (z_default False (z_optional z_boolean) (a ''isRevision'')) (\<lambda>rev.
     and_then (z_optional (z_number_int_min 1) (a ''revisesThought'')) (\<lambda>rt.
     and_then (z_optional (z_number_int_min 1) (a ''branchFromThought'')) (\<lambda>bf.
     and_then (z_optional z_string (a ''branchId'')) (\<lambda>b.
       Inr \<lparr>thought = t, thoughtNumber = tn, totalThoughts = tt,
            isRevision = (rev \<or> False), revisesThought = rt, branchFromThought = bf,
            branchId = b, needsMoreThoughts = nx\<rparr>))))))))"

text \<open>
  One call of the tool (lines 829 to 869): the arguments are validated before the callback
  runs; the callback builds the entry and calls \<^verbatim>\<open>processThought\<close>; an exception thrown
  there is caught and answered with \<^verbatim>\<open>isError: true\<close>.
\<close>

definition sequentialthinking ::
  "args \<Rightarrow> ledger \<Rightarrow> (error + ProgressSummary) \<times> ledger" where
  "sequentialthinking a s =
     (case parse_args a of
        Inl e \<Rightarrow> (Inl e, s)
      | Inr entry \<Rightarrow> processThought entry s)"

text \<open>A sequence of calls, threading the ledger: the responses and the final ledger.\<close>

fun run :: "ledger \<Rightarrow> args list \<Rightarrow> (error + ProgressSummary) list \<times> ledger" where
  "run s [] = ([], s)"
| "run s (a # as) =
     (case sequentialthinking a s of
        (r, s1) \<Rightarrow> (case run s1 as of (rs, s2) \<Rightarrow> (r # rs, s2)))"

definition responses :: "args list \<Rightarrow> (error + ProgressSummary) list" where
  "responses as = fst (run empty_ledger as)"

definition ledger_after :: "args list \<Rightarrow> ledger" where
  "ledger_after as = snd (run empty_ledger as)"

text \<open>The arguments of a call, from the fields given.\<close>

definition mk_args ::
  "string \<Rightarrow> int \<Rightarrow> int \<Rightarrow> bool \<Rightarrow> string option \<Rightarrow> args" where
  "mk_args t tn tt nx b =
     (case b of
        None \<Rightarrow> [''thought'' \<mapsto> JString t, ''thoughtNumber'' \<mapsto> JInteger tn,
                 ''totalThoughts'' \<mapsto> JInteger tt, ''nextThoughtNeeded'' \<mapsto> JBoolean nx]
      | Some l \<Rightarrow> [''thought'' \<mapsto> JString t, ''thoughtNumber'' \<mapsto> JInteger tn,
                   ''totalThoughts'' \<mapsto> JInteger tt, ''nextThoughtNeeded'' \<mapsto> JBoolean nx,
                   ''branchId'' \<mapsto> JString l])"

subsection \<open>Notions used by the properties\<close>

text \<open>
  The entry as \<^verbatim>\<open>processThought\<close> stores it, in the words of the normalization rule: the
  total is raised to the entry's own number when that is larger.
\<close>

definition normalized :: "ThoughtEntry \<Rightarrow> ThoughtEntry" where
  "normalized e =
     e\<lparr>totalThoughts :=
         (if thoughtNumber e > totalThoughts e then thoughtNumber e else totalThoughts e)\<rparr>"


text \<open>
  The label under which an entry is filed: its \<^verbatim>\<open>branchId\<close>, unless that is absent, empty
  or the name of a member of \<^verbatim>\<open>Object.prototype\<close>. The labels created by a history are
  the labels of its entries.
\<close>

definition label_of :: "ThoughtEntry \<Rightarrow> string option" where
  "label_of e =
     (case branchId e of
        None \<Rightarrow> None
      | Some l \<Rightarrow> if l = [] then None
                  else if l \<in> set Object_prototype_keys then None else Some l)"

definition created_labels :: "ThoughtEntry list \<Rightarrow> string list" where
  "created_labels h = List.map_filter label_of h"

section \<open>Properties of the embedding\<close>

subsection \<open>One call\<close>

lemma track_branch_unlabelled:
  "branchId e = None \<Longrightarrow> track_branch e obj = Inr obj"
  by (simp add: track_branch_def)

lemma track_branch_empty_label:
  "branchId e = Some [] \<Longrightarrow> track_branch e obj = Inr obj"
  by (simp add: track_branch_def)

lemma track_branch_existing:
  "branchId e = Some b \<Longrightarrow> b \<noteq> [] \<Longrightarrow> map_of obj b = Some es \<Longrightarrow>
     track_branch e obj = Inr (AList.update b (es @ [e]) obj)"
  by (simp add: track_branch_def get_prop_def set_prop_def)

lemma track_branch_new:
  "branchId e = Some b \<Longrightarrow> b \<noteq> [] \<Longrightarrow> map_of obj b = None \<Longrightarrow>
     b \<notin> set Object_prototype_keys \<Longrightarrow>
     track_branch e obj = Inr (AList.update b [e] obj)"
  by (simp add: track_branch_def get_prop_def set_prop_def update_conv')

lemma track_branch_inherited:
  "branchId e = Some b \<Longrightarrow> b \<noteq> [] \<Longrightarrow> map_of obj b = None \<Longrightarrow>
     b \<in> set Object_prototype_keys \<Longrightarrow> track_branch e obj = Inl TypeError"
  by (simp add: track_branch_def get_prop_def)

lemma run_append:
  "run s (as @ bs) =
     (case run s as of (rs, s1) \<Rightarrow> (case run s1 bs of (rs', s2) \<Rightarrow> (rs @ rs', s2)))"
  by (induction as arbitrary: s) (auto split: prod.splits)

lemma ledger_after_snoc:
  "ledger_after (as @ [a]) = snd (sequentialthinking a (ledger_after as))"
  by (simp add: ledger_after_def run_append split: prod.splits)

lemma responses_snoc:
  "responses (as @ [a]) = responses as @ [fst (sequentialthinking a (ledger_after as))]"
  by (simp add: responses_def ledger_after_def run_append split: prod.splits)

lemma length_responses: "length (responses as) = length as"
proof (induction as rule: rev_induct)
  case Nil
  show ?case by (simp add: responses_def)
next
  case (snoc a as)
  then show ?case by (simp add: responses_snoc)
qed

lemma responses_nth:
  "n < length as \<Longrightarrow>
     responses as ! n = fst (sequentialthinking (as ! n) (ledger_after (take n as)))"
proof (induction as rule: rev_induct)
  case Nil
  then show ?case by simp
next
  case (snoc a as)
  show ?case
  proof (cases "n < length as")
    case True
    with snoc.IH show ?thesis
      by (simp add: responses_snoc nth_append length_responses)
  next
    case False
    with snoc.prems have "n = length as" by simp
    then show ?thesis
      by (simp add: responses_snoc nth_append length_responses)
  qed
qed




lemma created_labels_snoc:
  "created_labels (h @ [e]) =
     (case label_of e of None \<Rightarrow> created_labels h | Some l \<Rightarrow> created_labels h @ [l])"
  by (simp add: created_labels_def List.map_filter_def split: option.splits)

lemma normalized_fields:
  "thought (normalized e) = thought e"
  "thoughtNumber (normalized e) = thoughtNumber e"
  "branchId (normalized e) = branchId e"
  "needsMoreThoughts (normalized e) = needsMoreThoughts e"
  "label_of (normalized e) = label_of e"
  by (simp_all add: normalized_def label_of_def)

lemma normalized_total: "thoughtNumber (normalized e) \<le> totalThoughts (normalized e)"
  by (simp add: normalized_def)

lemma processThought_eq:
  "processThought e s =
     (case track_branch (normalized e) (branches s) of
        Inl err \<Rightarrow> (Inl err, s\<lparr>thoughtHistory := thoughtHistory s @ [normalized e]\<rparr>)
      | Inr obj \<Rightarrow>
          (Inr \<lparr>out_thoughtNumber = thoughtNumber e,
                out_totalThoughts = totalThoughts (normalized e),
                nextThoughtNeeded = needsMoreThoughts e,
                out_branches = Object_keys obj,
                thoughtHistoryLength = Suc (length (thoughtHistory s))\<rparr>,
           s\<lparr>thoughtHistory := thoughtHistory s @ [normalized e], branches := obj\<rparr>))"
proof -
  have n: "(if thoughtNumber e > totalThoughts e
            then e\<lparr>totalThoughts := thoughtNumber e\<rparr> else e) = normalized e"
    by (simp add: normalized_def)
  show ?thesis
    unfolding processThought_def n
    by (simp add: Let_def normalized_fields split: sum.splits)
qed

lemma processThought_history:
  "thoughtHistory (snd (processThought e s)) = thoughtHistory s @ [normalized e]"
  by (simp add: processThought_eq split: sum.splits)

lemma track_branch_error: "track_branch e obj = Inl err \<Longrightarrow> err = TypeError"
  by (auto simp: track_branch_def Let_def split: option.splits if_splits jsvalue.splits)

lemma processThought_not_validation:
  "fst (processThought e s) \<noteq> Inl ValidationError"
  by (auto simp: processThought_eq split: sum.splits dest: track_branch_error)

lemma track_branch_Inl_iff:
  "track_branch e obj = Inl TypeError \<longleftrightarrow>
     (\<exists>b. branchId e = Some b \<and> b \<noteq> [] \<and> get_prop obj b = Inherited)"
  by (auto simp: track_branch_def Let_def get_prop_def set_prop_def update_conv'
      split: option.splits if_splits jsvalue.splits)

lemma sequentialthinking_cases:
  obtains (rejected) err where "parse_args a = Inl err" "sequentialthinking a s = (Inl err, s)"
  | (accepted) e where "parse_args a = Inr e" "sequentialthinking a s = processThought e s"
  by (cases "parse_args a") (auto simp: sequentialthinking_def)

lemma ledger_after_Nil: "ledger_after [] = empty_ledger"
  by (simp add: ledger_after_def)

lemma ledger_after_induct [consumes 0, case_names empty step]:
  assumes "P empty_ledger"
    and "\<And>s a e. P s \<Longrightarrow> parse_args a = Inr e \<Longrightarrow> P (snd (processThought e s))"
  shows "P (ledger_after as)"
proof (induction as rule: rev_induct)
  case Nil
  show ?case using assms(1) by (simp add: ledger_after_Nil)
next
  case (snoc a as)
  show ?case
  proof (cases a "ledger_after as" rule: sequentialthinking_cases)
    case (rejected err)
    with snoc show ?thesis by (simp add: ledger_after_snoc)
  next
    case (accepted e)
    with snoc assms(2) show ?thesis by (simp add: ledger_after_snoc)
  qed
qed

lemma set_update_subset: "set (AList.update k v al) \<subseteq> insert (k, v) (set al)"
  by (induction al) auto

lemma track_branch_members:
  assumes "track_branch e obj = Inr obj'" and "(l, es) \<in> set obj'"
  shows "(l, es) \<in> set obj \<or> es = [e] \<or> (\<exists>es0. (l, es0) \<in> set obj \<and> es = es0 @ [e])"
proof (cases "branchId e")
  case None
  with assms show ?thesis by (simp add: track_branch_unlabelled)
next
  case (Some b)
  show ?thesis
  proof (cases "b = []")
    case True
    with Some assms show ?thesis by (simp add: track_branch_empty_label)
  next
    case nonempty: False
    show ?thesis
    proof (cases "map_of obj b")
      case (Some es0)
      with \<open>branchId e = Some b\<close> nonempty assms(1)
      have "obj' = AList.update b (es0 @ [e]) obj"
        by (simp add: track_branch_existing)
      with assms(2) set_update_subset [of b "es0 @ [e]" obj]
      have "(l, es) = (b, es0 @ [e]) \<or> (l, es) \<in> set obj" by auto
      moreover have "(b, es0) \<in> set obj" using Some by (rule map_of_SomeD)
      ultimately show ?thesis by auto
    next
      case None
      show ?thesis
      proof (cases "b \<in> set Object_prototype_keys")
        case True
        with \<open>branchId e = Some b\<close> nonempty None assms(1) show ?thesis
          by (simp add: track_branch_inherited)
      next
        case False
        with \<open>branchId e = Some b\<close> nonempty None assms(1)
        have "obj' = AList.update b [e] obj"
          by (simp add: track_branch_new)
        with assms(2) set_update_subset [of b "[e]" obj] show ?thesis by auto
      qed
    qed
  qed
qed

lemma processThought_branches:
  "branches (snd (processThought e s)) =
     (case track_branch (normalized e) (branches s) of
        Inl err \<Rightarrow> branches s | Inr obj \<Rightarrow> obj)"
  by (simp add: processThought_eq split: sum.splits)

lemma branch_entries_step:
  assumes "\<And>l es x. (l, es) \<in> set (branches s) \<Longrightarrow> x \<in> set es \<Longrightarrow> x \<in> set (thoughtHistory s)"
    and "(l, es) \<in> set (branches (snd (processThought e s)))" and "x \<in> set es"
  shows "x \<in> set (thoughtHistory (snd (processThought e s)))"
proof (cases "track_branch (normalized e) (branches s)")
  case (Inl err)
  with assms show ?thesis
    by (auto simp: processThought_branches processThought_history)
next
  case (Inr obj)
  with assms(2) have "(l, es) \<in> set obj" by (simp add: processThought_branches)
  from track_branch_members [OF Inr this]
  consider "(l, es) \<in> set (branches s)" | "es = [normalized e]"
    | es0 where "(l, es0) \<in> set (branches s)" "es = es0 @ [normalized e]"
    by blast
  then show ?thesis
  proof cases
    case 1
    with assms(1,3) show ?thesis by (auto simp: processThought_history)
  next
    case 2
    with assms(3) show ?thesis by (simp add: processThought_history)
  next
    case 3
    with assms(3) have "x \<in> set es0 \<or> x = normalized e" by auto
    with 3(1) assms(1) show ?thesis by (auto simp: processThought_history)
  qed
qed

lemma set_created_labels:
  "set (created_labels h) =
     {l. l \<noteq> [] \<and> l \<notin> set Object_prototype_keys \<and> (\<exists>e \<in> set h. branchId e = Some l)}"
proof (induction h rule: rev_induct)
  case Nil
  show ?case by (simp add: created_labels_def List.map_filter_def)
next
  case (snoc e h)
  show ?case
    by (cases "branchId e")
       (auto simp: created_labels_snoc snoc.IH label_of_def split: option.splits if_splits)
qed

lemma label_of_Some_iff:
  "label_of e = Some l \<longleftrightarrow>
     branchId e = Some l \<and> l \<noteq> [] \<and> l \<notin> set Object_prototype_keys"
  by (auto simp: label_of_def split: option.splits)

lemma label_of_None_iff:
  "label_of e = None \<longleftrightarrow>
     branchId e = None \<or> branchId e = Some [] \<or>
     (\<exists>l. branchId e = Some l \<and> l \<in> set Object_prototype_keys)"
  by (auto simp: label_of_def split: option.splits)

lemma map_of_None_iff_keys: "map_of al k = None \<longleftrightarrow> k \<notin> set (map fst al)"
  by (simp add: map_of_eq_None_iff)

text \<open>One step on a ledger whose own keys are the created labels.\<close>

lemma track_branch_by_label:
  assumes "set (map fst obj) \<inter> set Object_prototype_keys = {}"
  shows "track_branch e obj =
     (case label_of e of
        None \<Rightarrow> (case branchId e of None \<Rightarrow> Inr obj
                  | Some b \<Rightarrow> if b = [] then Inr obj else Inl TypeError)
      | Some b \<Rightarrow> Inr (AList.update b ((case map_of obj b of None \<Rightarrow> [] | Some es \<Rightarrow> es) @ [e]) obj))"
proof (cases "label_of e")
  case None
  then consider "branchId e = None" | "branchId e = Some []"
    | l where "branchId e = Some l" "l \<noteq> []" "l \<in> set Object_prototype_keys"
    by (auto simp: label_of_None_iff)
  then show ?thesis
  proof cases
    case 1
    with None show ?thesis by (simp add: track_branch_unlabelled)
  next
    case 2
    with None show ?thesis by (simp add: track_branch_empty_label)
  next
    case 3
    with assms have "map_of obj l = None" by (auto simp: map_of_None_iff_keys)
    with 3 None show ?thesis by (simp add: track_branch_inherited)
  qed
next
  case (Some b)
  then have b: "branchId e = Some b" "b \<noteq> []" "b \<notin> set Object_prototype_keys"
    by (simp_all add: label_of_Some_iff)
  show ?thesis
  proof (cases "map_of obj b")
    case None
    with b Some show ?thesis by (simp add: track_branch_new)
  next
    case (Some es)
    with b \<open>label_of e = Some b\<close> show ?thesis by (simp add: track_branch_existing)
  qed
qed

lemma created_labels_not_inherited:
  "set (created_labels h) \<inter> set Object_prototype_keys = {}"
  by (auto simp: set_created_labels)



subsection \<open>The input schema\<close>

lemma z_string_error: "z_string v = Inl err \<Longrightarrow> err = ValidationError"
  by (auto simp: z_string_def split: option.splits json.splits)

lemma z_number_error: "z_number_int_min m v = Inl err \<Longrightarrow> err = ValidationError"
  by (auto simp: z_number_int_min_def split: option.splits json.splits if_splits)

lemma z_boolean_error: "z_boolean v = Inl err \<Longrightarrow> err = ValidationError"
  by (auto simp: z_boolean_def split: option.splits json.splits)

lemma z_optional_number_error:
  "z_optional (z_number_int_min m) v = Inl err \<Longrightarrow> err = ValidationError"
  by (auto simp: z_optional_def split: option.splits sum.splits dest: z_number_error)

lemma z_optional_string_error:
  "z_optional z_string v = Inl err \<Longrightarrow> err = ValidationError"
  by (auto simp: z_optional_def split: option.splits sum.splits dest: z_string_error)

lemma z_optional_boolean_error:
  "z_optional z_boolean v = Inl err \<Longrightarrow> err = ValidationError"
  by (auto simp: z_optional_def split: option.splits sum.splits dest: z_boolean_error)

lemma z_default_boolean_error:
  "z_default d (z_optional z_boolean) v = Inl err \<Longrightarrow> err = ValidationError"
  by (auto simp: z_default_def split: option.splits sum.splits dest: z_optional_boolean_error)

lemma and_then_Inl_iff:
  "and_then r f = Inl err \<longleftrightarrow> r = Inl err \<or> (\<exists>x. r = Inr x \<and> f x = Inl err)"
  by (cases r) (simp_all add: and_then_def)

lemma and_then_Inr_iff:
  "and_then r f = Inr y \<longleftrightarrow> (\<exists>x. r = Inr x \<and> f x = Inr y)"
  by (cases r) (simp_all add: and_then_def)

lemma parse_args_error: "parse_args a = Inl err \<Longrightarrow> err = ValidationError"
  unfolding parse_args_def and_then_Inl_iff
  by (elim disjE exE conjE)
     (auto dest: z_string_error z_number_error z_boolean_error
        z_optional_number_error z_optional_string_error z_default_boolean_error)

lemma parse_args_Inr_iff:
  "parse_args a = Inr e \<longleftrightarrow>
     z_string (a ''thought'') = Inr (thought e) \<and>
     z_number_int_min 1 (a ''thoughtNumber'') = Inr (thoughtNumber e) \<and>
     z_number_int_min 1 (a ''totalThoughts'') = Inr (totalThoughts e) \<and>
     z_boolean (a ''nextThoughtNeeded'') = Inr (needsMoreThoughts e) \<and>
     z_default False (z_optional z_boolean) (a ''isRevision'') = Inr (isRevision e) \<and>
     z_optional (z_number_int_min 1) (a ''revisesThought'') = Inr (revisesThought e) \<and>
     z_optional (z_number_int_min 1) (a ''branchFromThought'') = Inr (branchFromThought e) \<and>
     z_optional z_string (a ''branchId'') = Inr (branchId e)"
  unfolding parse_args_def and_then_Inr_iff
  by (cases e) auto

subsection \<open>Further facts about one call and about reachable ledgers\<close>

lemma sequentialthinking_accepted:
  "parse_args a = Inr e \<Longrightarrow> sequentialthinking a s = processThought e s"
  by (simp add: sequentialthinking_def)

lemma sequentialthinking_rejected:
  "parse_args a = Inl err \<Longrightarrow> sequentialthinking a s = (Inl ValidationError, s)"
  by (auto simp: sequentialthinking_def dest: parse_args_error)

lemma processThought_summary:
  "fst (processThought e s) = Inr sm \<Longrightarrow>
     sm = \<lparr>out_thoughtNumber = thoughtNumber e,
            out_totalThoughts = totalThoughts (normalized e),
            nextThoughtNeeded = needsMoreThoughts e,
            out_branches = Object_keys (branches (snd (processThought e s))),
            thoughtHistoryLength = length (thoughtHistory (snd (processThought e s)))\<rparr>"
  by (auto simp: processThought_eq split: sum.splits)

lemma processThought_returns_iff:
  "(\<exists>sm. fst (processThought e s) = Inr sm) \<longleftrightarrow>
     \<not> (\<exists>b. branchId e = Some b \<and> b \<noteq> [] \<and> get_prop (branches s) b = Inherited)"
proof -
  have "(\<exists>sm. fst (processThought e s) = Inr sm) \<longleftrightarrow>
          track_branch (normalized e) (branches s) \<noteq> Inl TypeError"
    by (auto simp: processThought_eq split: sum.splits dest: track_branch_error)
  then show ?thesis
    by (simp add: track_branch_Inl_iff normalized_fields)
qed

lemma sequentialthinking_history_length:
  "parse_args a = Inr e \<Longrightarrow>
     length (thoughtHistory (snd (sequentialthinking a s))) = Suc (length (thoughtHistory s))"
  by (simp add: sequentialthinking_accepted processThought_history)

lemma valid_history_length:
  "\<forall>a \<in> set as. \<exists>e. parse_args a = Inr e \<Longrightarrow>
     length (thoughtHistory (ledger_after as)) = length as"
proof (induction as rule: rev_induct)
  case Nil
  show ?case by (simp add: ledger_after_Nil empty_ledger_def)
next
  case (snoc a as)
  then obtain e where "parse_args a = Inr e" by auto
  with snoc show ?case
    by (simp add: ledger_after_snoc sequentialthinking_history_length)
qed






lemma filter_label_absent:
  assumes "l \<notin> set (created_labels h)" and "l \<noteq> []" and "l \<notin> set Object_prototype_keys"
  shows "filter (\<lambda>e. branchId e = Some l) h = []"
  using assms by (auto simp: set_created_labels filter_empty_conv)

lemma branch_contents_step:
  assumes inv: "\<And>l. map_of (branches s) l =
      (if l \<in> set (created_labels (thoughtHistory s))
       then Some (filter (\<lambda>x. branchId x = Some l) (thoughtHistory s)) else None)"
  shows "map_of (branches (snd (processThought e s))) l =
      (if l \<in> set (created_labels (thoughtHistory (snd (processThought e s))))
       then Some (filter (\<lambda>x. branchId x = Some l) (thoughtHistory (snd (processThought e s))))
       else None)"
proof -
  let ?obj = "branches s" and ?h = "thoughtHistory s" and ?e = "normalized e"
  have "k \<in> set (map fst ?obj) \<longleftrightarrow> k \<in> set (created_labels ?h)" for k
    using inv [of k] map_of_None_iff_keys [of ?obj k] by (simp split: if_splits del: set_map)
  then have disj: "set (map fst ?obj) \<inter> set Object_prototype_keys = {}"
    using created_labels_not_inherited [of ?h] by blast
  note tb = track_branch_by_label [OF disj, of ?e]
  show ?thesis
  proof (cases "label_of e")
    case None
    then have br: "branches (snd (processThought e s)) = ?obj"
      by (auto simp: processThought_branches tb normalized_fields split: option.splits)
    have "branchId e \<noteq> Some l" if "l \<in> set (created_labels ?h)"
      using that None by (auto simp: label_of_None_iff set_created_labels)
    with None show ?thesis
      by (simp add: br processThought_history created_labels_snoc normalized_fields inv)
  next
    case (Some b)
    then have b: "branchId e = Some b" "b \<noteq> []" "b \<notin> set Object_prototype_keys"
      by (simp_all add: label_of_Some_iff)
    have X: "(case map_of ?obj b of None \<Rightarrow> [] | Some es \<Rightarrow> es) =
             filter (\<lambda>x. branchId x = Some b) ?h"
      using filter_label_absent [of b ?h] b by (simp add: inv)
    from Some have br: "branches (snd (processThought e s)) =
        AList.update b (filter (\<lambda>x. branchId x = Some b) ?h @ [?e]) ?obj"
      by (simp add: processThought_branches tb normalized_fields X)
    show ?thesis
    proof (cases "l = b")
      case True
      with Some b show ?thesis
        by (simp add: br update_conv' processThought_history created_labels_snoc
            normalized_fields)
    next
      case False
      with Some b show ?thesis
        by (simp add: br update_conv' processThought_history created_labels_snoc
            normalized_fields inv)
    qed
  qed
qed

lemma branch_contents:
  "map_of (branches (ledger_after as)) l =
     (if l \<in> set (created_labels (thoughtHistory (ledger_after as)))
      then Some (filter (\<lambda>x. branchId x = Some l) (thoughtHistory (ledger_after as)))
      else None)"
proof (induction arbitrary: l rule: ledger_after_induct)
  case empty
  show ?case by (simp add: empty_ledger_def created_labels_def List.map_filter_def)
next
  case (step s a e)
  from step(1) show ?case by (rule branch_contents_step)
qed

text \<open>
  Calls that the schema accepts: each appends exactly one entry to the history; a summary
  is returned exactly when the \<^verbatim>\<open>branchId\<close> is not the name of a member of
  \<^verbatim>\<open>Object.prototype\<close>, and it then carries the length of the history after the append.
\<close>

lemma reachable_inherited_iff:
  "get_prop (branches (ledger_after as)) b = Inherited \<longleftrightarrow> b \<in> set Object_prototype_keys"
proof
  assume "get_prop (branches (ledger_after as)) b = Inherited"
  then show "b \<in> set Object_prototype_keys"
    by (auto simp: get_prop_def split: option.splits if_splits)
next
  assume b: "b \<in> set Object_prototype_keys"
  then have "b \<notin> set (created_labels (thoughtHistory (ledger_after as)))"
    using created_labels_not_inherited [of "thoughtHistory (ledger_after as)"] by blast
  then have "map_of (branches (ledger_after as)) b = None"
    by (simp add: branch_contents)
  with b show "get_prop (branches (ledger_after as)) b = Inherited"
    by (simp add: get_prop_def)
qed

lemma empty_not_inherited: "[] \<notin> set Object_prototype_keys"
  by (simp add: Object_prototype_keys_def)

lemma accepted_calls_counted:
  assumes "\<forall>a \<in> set as. \<exists>e. parse_args a = Inr e"
  shows "length (thoughtHistory (ledger_after as)) = length as
       \<and> (\<forall>n. n < length as \<longrightarrow>
             length (thoughtHistory (ledger_after (take (n + 1) as))) =
               length (thoughtHistory (ledger_after (take n as))) + 1
             \<and> (\<forall>sm. responses as ! n = Inr sm \<longrightarrow> thoughtHistoryLength sm = n + 1)
             \<and> ((\<exists>sm. responses as ! n = Inr sm) \<longleftrightarrow>
                  \<not> (\<exists>e b. parse_args (as ! n) = Inr e \<and> branchId e = Some b \<and>
                            b \<in> set Object_prototype_keys)))"
proof (intro conjI allI impI)
  show "length (thoughtHistory (ledger_after as)) = length as"
    using assms by (rule valid_history_length)
next
  fix n assume n: "n < length as"
  let ?s = "ledger_after (take n as)"
  have v: "\<forall>a \<in> set (take k as). \<exists>e. parse_args a = Inr e" for k
    using assms by (auto dest: in_set_takeD)
  from n have "as ! n \<in> set as" by simp
  with assms obtain e where e: "parse_args (as ! n) = Inr e" by blast
  have resp: "responses as ! n = fst (processThought e ?s)"
    using responses_nth [OF n] e by (simp add: sequentialthinking_accepted)
  show "length (thoughtHistory (ledger_after (take (n + 1) as))) =
               length (thoughtHistory (ledger_after (take n as))) + 1"
    using n by (simp add: valid_history_length [OF v])
  show "thoughtHistoryLength sm = n + 1" if "responses as ! n = Inr sm" for sm
  proof -
    from that resp have "fst (processThought e ?s) = Inr sm" by simp
    then have "thoughtHistoryLength sm = length (thoughtHistory (snd (processThought e ?s)))"
      by (auto dest: processThought_summary)
    also have "\<dots> = Suc (length (thoughtHistory ?s))"
      by (simp add: processThought_history)
    also have "length (thoughtHistory ?s) = length (take n as)"
      using v by (rule valid_history_length)
    finally show ?thesis using n by simp
  qed
  have "(\<exists>sm. responses as ! n = Inr sm) \<longleftrightarrow>
      \<not> (\<exists>b. branchId e = Some b \<and> b \<noteq> [] \<and> b \<in> set Object_prototype_keys)"
    unfolding resp processThought_returns_iff reachable_inherited_iff ..
  also have "\<dots> \<longleftrightarrow> \<not> (\<exists>b. branchId e = Some b \<and> b \<in> set Object_prototype_keys)"
    using empty_not_inherited by auto
  also have "\<dots> \<longleftrightarrow> \<not> (\<exists>e' b. parse_args (as ! n) = Inr e' \<and> branchId e' = Some b \<and>
                            b \<in> set Object_prototype_keys)"
    using e by auto
  finally show "(\<exists>sm. responses as ! n = Inr sm) \<longleftrightarrow>
                  \<not> (\<exists>e b. parse_args (as ! n) = Inr e \<and> branchId e = Some b \<and>
                            b \<in> set Object_prototype_keys)" .
qed

section \<open>The claims\<close>



text \<open>
  C2 fails on the code at a submission that the schema accepts and whose \<^verbatim>\<open>branchId\<close> is
  \<^verbatim>\<open>"toString"\<close>: it is the first submission on the empty ledger, it appends its entry to
  the history, and it is answered with an error, so no \<^verbatim>\<open>thoughtHistoryLength\<close> is returned;
  the second submission returns 2. For every accepted submission whose \<^verbatim>\<open>branchId\<close> is not
  the name of a member of \<^verbatim>\<open>Object.prototype\<close> the property holds, by
  \<open>accepted_calls_counted\<close>.
\<close>

theorem inherited_label_returns_no_length:
  "parse_args (mk_args ''t'' 1 1 True (Some ''toString'')) =
     Inr \<lparr>thought = ''t'', thoughtNumber = 1, totalThoughts = 1, isRevision = False,
          revisesThought = None, branchFromThought = None, branchId = Some ''toString'',
          needsMoreThoughts = True\<rparr>
   \<and> parse_args (mk_args ''u'' 2 2 False None) =
     Inr \<lparr>thought = ''u'', thoughtNumber = 2, totalThoughts = 2, isRevision = False,
          revisesThought = None, branchFromThought = None, branchId = None,
          needsMoreThoughts = False\<rparr>
   \<and> responses [mk_args ''t'' 1 1 True (Some ''toString''), mk_args ''u'' 2 2 False None] =
       [Inl TypeError,
        Inr \<lparr>out_thoughtNumber = 2, out_totalThoughts = 2, nextThoughtNeeded = False,
             out_branches = [], thoughtHistoryLength = 2\<rparr>]
   \<and> length (thoughtHistory (ledger_after [mk_args ''t'' 1 1 True (Some ''toString'')])) = 1"
  by code_simp

text \<open>
  C3 as stated fails: the schema of \<^verbatim>\<open>thought\<close> is \<^verbatim>\<open>z.string()\<close>, with no minimal length. A
  submission whose \<^verbatim>\<open>thought\<close> is the empty string is accepted, stored and answered with a
  summary.
\<close>

theorem empty_thought_accepted:
  "mk_args [] 1 1 False None ''thought'' = Some (JString [])
   \<and> sequentialthinking (mk_args [] 1 1 False None) empty_ledger =
       (Inr \<lparr>out_thoughtNumber = 1, out_totalThoughts = 1, nextThoughtNeeded = False,
             out_branches = [], thoughtHistoryLength = 1\<rparr>,
        \<lparr>thoughtHistory =
           [\<lparr>thought = [], thoughtNumber = 1, totalThoughts = 1, isRevision = False,
             revisesThought = None, branchFromThought = None, branchId = None,
             needsMoreThoughts = False\<rparr>],
         branches = []\<rparr>)
   \<and> fst (sequentialthinking (mk_args [] 1 1 False None) empty_ledger) \<noteq> Inl ValidationError
   \<and> snd (sequentialthinking (mk_args [] 1 1 False None) empty_ledger) \<noteq> empty_ledger"
  by code_simp

text \<open>
  C3, amended. A submission fails with a validation error exactly when the schema rejects
  it, and then the ledger is unchanged. The schema rejects a submission exactly when
  \<^verbatim>\<open>thought\<close> is missing or not a string, \<^verbatim>\<open>thoughtNumber\<close> or \<^verbatim>\<open>totalThoughts\<close> is missing, not
  an integer or less than 1, \<^verbatim>\<open>nextThoughtNeeded\<close> is missing or not a boolean, or an
  optional field is present with the wrong type or, for \<^verbatim>\<open>revisesThought\<close> and
  \<^verbatim>\<open>branchFromThought\<close>, a value less than 1. Every string is accepted as \<^verbatim>\<open>thought\<close>.
\<close>

theorem rejected_leaves_ledger:
  "(fst (sequentialthinking a s) = Inl ValidationError \<longrightarrow>
      (\<exists>err. parse_args a = Inl err) \<and> snd (sequentialthinking a s) = s)
   \<and> ((\<exists>err. parse_args a = Inl err) \<longrightarrow> sequentialthinking a s = (Inl ValidationError, s))
   \<and> ((\<exists>err. parse_args a = Inl err) \<longleftrightarrow>
        \<not> ((\<exists>t. a ''thought'' = Some (JString t)) \<and>
           (\<exists>n. a ''thoughtNumber'' = Some (JInteger n) \<and> 1 \<le> n) \<and>
           (\<exists>n. a ''totalThoughts'' = Some (JInteger n) \<and> 1 \<le> n) \<and>
           (\<exists>b. a ''nextThoughtNeeded'' = Some (JBoolean b)) \<and>
           (a ''isRevision'' = None \<or> (\<exists>b. a ''isRevision'' = Some (JBoolean b))) \<and>
           (a ''revisesThought'' = None \<or>
              (\<exists>n. a ''revisesThought'' = Some (JInteger n) \<and> 1 \<le> n)) \<and>
           (a ''branchFromThought'' = None \<or>
              (\<exists>n. a ''branchFromThought'' = Some (JInteger n) \<and> 1 \<le> n)) \<and>
           (a ''branchId'' = None \<or> (\<exists>l. a ''branchId'' = Some (JString l)))))"
proof (intro conjI impI)
  assume v: "fst (sequentialthinking a s) = Inl ValidationError"
  show "\<exists>err. parse_args a = Inl err"
  proof (cases a s rule: sequentialthinking_cases)
    case (rejected err)
    then show ?thesis by blast
  next
    case (accepted e)
    with v processThought_not_validation [of e s] show ?thesis by simp
  qed
  then show "snd (sequentialthinking a s) = s"
    by (auto simp: sequentialthinking_rejected)
next
  assume "\<exists>err. parse_args a = Inl err"
  then show "sequentialthinking a s = (Inl ValidationError, s)"
    by (auto simp: sequentialthinking_rejected)
next
  have s: "(\<exists>x. z_string v = Inr x) \<longleftrightarrow> (\<exists>t. v = Some (JString t))" for v
    by (auto simp: z_string_def split: option.splits json.splits)
  have n: "(\<exists>x. z_number_int_min 1 v = Inr x) \<longleftrightarrow> (\<exists>n. v = Some (JInteger n) \<and> 1 \<le> n)" for v
    by (auto simp: z_number_int_min_def split: option.splits json.splits)
  have b: "(\<exists>x. z_boolean v = Inr x) \<longleftrightarrow> (\<exists>b. v = Some (JBoolean b))" for v
    by (auto simp: z_boolean_def split: option.splits json.splits)
  have os: "(\<exists>x. z_optional z_string v = Inr x) \<longleftrightarrow> v = None \<or> (\<exists>t. v = Some (JString t))" for v
    by (auto simp: z_optional_def z_string_def split: option.splits json.splits)
  have on: "(\<exists>x. z_optional (z_number_int_min 1) v = Inr x) \<longleftrightarrow>
              v = None \<or> (\<exists>n. v = Some (JInteger n) \<and> 1 \<le> n)" for v
    by (auto simp: z_optional_def z_number_int_min_def split: option.splits json.splits)
  have db: "(\<exists>x. z_default False (z_optional z_boolean) v = Inr x) \<longleftrightarrow>
              v = None \<or> (\<exists>b. v = Some (JBoolean b))" for v
    by (auto simp: z_default_def z_optional_def z_boolean_def split: option.splits json.splits)
  have "(\<exists>err. parse_args a = Inl err) \<longleftrightarrow> \<not> (\<exists>e. parse_args a = Inr e)"
    by (cases "parse_args a") auto
  also have "(\<exists>e. parse_args a = Inr e) \<longleftrightarrow>
      (\<exists>x. z_string (a ''thought'') = Inr x) \<and>
      (\<exists>x. z_number_int_min 1 (a ''thoughtNumber'') = Inr x) \<and>
      (\<exists>x. z_number_int_min 1 (a ''totalThoughts'') = Inr x) \<and>
      (\<exists>x. z_boolean (a ''nextThoughtNeeded'') = Inr x) \<and>
      (\<exists>x. z_default False (z_optional z_boolean) (a ''isRevision'') = Inr x) \<and>
      (\<exists>x. z_optional (z_number_int_min 1) (a ''revisesThought'') = Inr x) \<and>
      (\<exists>x. z_optional (z_number_int_min 1) (a ''branchFromThought'') = Inr x) \<and>
      (\<exists>x. z_optional z_string (a ''branchId'') = Inr x)"
    unfolding parse_args_def and_then_Inr_iff by blast
  finally show "(\<exists>err. parse_args a = Inl err) \<longleftrightarrow>
        \<not> ((\<exists>t. a ''thought'' = Some (JString t)) \<and>
           (\<exists>n. a ''thoughtNumber'' = Some (JInteger n) \<and> 1 \<le> n) \<and>
           (\<exists>n. a ''totalThoughts'' = Some (JInteger n) \<and> 1 \<le> n) \<and>
           (\<exists>b. a ''nextThoughtNeeded'' = Some (JBoolean b)) \<and>
           (a ''isRevision'' = None \<or> (\<exists>b. a ''isRevision'' = Some (JBoolean b))) \<and>
           (a ''revisesThought'' = None \<or>
              (\<exists>n. a ''revisesThought'' = Some (JInteger n) \<and> 1 \<le> n)) \<and>
           (a ''branchFromThought'' = None \<or>
              (\<exists>n. a ''branchFromThought'' = Some (JInteger n) \<and> 1 \<le> n)) \<and>
           (a ''branchId'' = None \<or> (\<exists>l. a ''branchId'' = Some (JString l))))"
    unfolding s n b os on db .
qed

text \<open>
  C3, amended, at \<^verbatim>\<open>thoughtNumber = 0\<close> on a ledger that holds one entry and one branch.
\<close>

theorem rejected_leaves_ledger_witness:
  "parse_args (mk_args ''t'' 0 1 False None) = Inl ValidationError
   \<and> sequentialthinking (mk_args ''t'' 0 1 False None)
        (ledger_after [mk_args ''s'' 1 1 True (Some ''alt'')]) =
       (Inl ValidationError, ledger_after [mk_args ''s'' 1 1 True (Some ''alt'')])"
proof -
  have p: "parse_args (mk_args ''t'' 0 1 False None) = Inl ValidationError" by code_simp
  then have "\<exists>err. parse_args (mk_args ''t'' 0 1 False None) = Inl err" by blast
  with rejected_leaves_ledger [of "mk_args ''t'' 0 1 False None"
      "ledger_after [mk_args ''s'' 1 1 True (Some ''alt'')]"] p
  show ?thesis by blast
qed

text \<open>
  C4 fails on the code at a well-typed entry whose \<^verbatim>\<open>branchId\<close> is \<^verbatim>\<open>"toString"\<close>. The read
  \<^verbatim>\<open>branches["toString"]\<close> yields the function inherited from \<^verbatim>\<open>Object.prototype\<close>, so no
  array is created, and the call of \<^verbatim>\<open>push\<close> on it throws a \<^verbatim>\<open>TypeError\<close>: the tool answers
  with an error, after the entry has been appended to the history.
\<close>

theorem inherited_label_throws:
  "parse_args (mk_args ''t'' 1 1 False (Some ''toString'')) =
     Inr \<lparr>thought = ''t'', thoughtNumber = 1, totalThoughts = 1, isRevision = False,
          revisesThought = None, branchFromThought = None, branchId = Some ''toString'',
          needsMoreThoughts = False\<rparr>
   \<and> sequentialthinking (mk_args ''t'' 1 1 False (Some ''toString'')) empty_ledger =
       (Inl TypeError,
        \<lparr>thoughtHistory =
           [\<lparr>thought = ''t'', thoughtNumber = 1, totalThoughts = 1, isRevision = False,
             revisesThought = None, branchFromThought = None, branchId = Some ''toString'',
             needsMoreThoughts = False\<rparr>],
         branches = []\<rparr>)"
  by code_simp




text \<open>
  C6. In every ledger reached from the empty one by a sequence of calls, every entry of
  every sequence in \<^verbatim>\<open>branches\<close> is an entry of the history.
\<close>

theorem branch_entries_in_history:
  "(l, es) \<in> set (branches (ledger_after as)) \<Longrightarrow> x \<in> set es \<Longrightarrow>
     x \<in> set (thoughtHistory (ledger_after as))"
proof (induction arbitrary: l es x rule: ledger_after_induct)
  case empty
  then show ?case by (simp add: empty_ledger_def)
next
  case (step s a e)
  show ?case
    by (rule branch_entries_step [OF step(1) step(3) step(4)])
qed

text \<open>
  C6 after one unlabelled submission and one under \<^verbatim>\<open>"alt"\<close>.
\<close>

theorem branch_entries_stored_witness:
  "(''alt'', [\<lparr>thought = ''s'', thoughtNumber = 2, totalThoughts = 2, isRevision = False,
               revisesThought = None, branchFromThought = None, branchId = Some ''alt'',
               needsMoreThoughts = True\<rparr>])
     \<in> set (branches (ledger_after [mk_args ''r'' 1 1 True None,
                                      mk_args ''s'' 2 1 True (Some ''alt'')]))
   \<and> \<lparr>thought = ''s'', thoughtNumber = 2, totalThoughts = 2, isRevision = False,
       revisesThought = None, branchFromThought = None, branchId = Some ''alt'',
       needsMoreThoughts = True\<rparr>
     \<in> set (thoughtHistory (ledger_after [mk_args ''r'' 1 1 True None,
                                            mk_args ''s'' 2 1 True (Some ''alt'')]))"
proof -
  let ?as = "[mk_args ''r'' 1 1 True None, mk_args ''s'' 2 1 True (Some ''alt'')]"
  let ?e = "\<lparr>thought = ''s'', thoughtNumber = 2, totalThoughts = 2, isRevision = False,
               revisesThought = None, branchFromThought = None, branchId = Some ''alt'',
               needsMoreThoughts = True\<rparr>"
  have b: "branches (ledger_after ?as) = [(''alt'', [?e])]" by code_simp
  then have m: "(''alt'', [?e]) \<in> set (branches (ledger_after ?as))" by simp
  have x: "?e \<in> set [?e]" by simp
  from branch_entries_in_history [OF m x] m show ?thesis by simp
qed

text \<open>
  C7. In every ledger reached from the empty one by a sequence of calls, every entry of
  the history has \<^verbatim>\<open>totalThoughts\<close> at least its own \<^verbatim>\<open>thoughtNumber\<close>.
\<close>

theorem history_totals:
  "\<forall>e \<in> set (thoughtHistory (ledger_after as)). thoughtNumber e \<le> totalThoughts e"
proof (induction rule: ledger_after_induct)
  case empty
  show ?case by (simp add: empty_ledger_def)
next
  case (step s a e)
  then show ?case by (simp add: processThought_history normalized_total)
qed

text \<open>
  C7 at an entry submitted with \<^verbatim>\<open>thoughtNumber = 2\<close> and \<^verbatim>\<open>totalThoughts = 1\<close>.
\<close>

theorem history_totals_witness:
  "\<lparr>thought = ''s'', thoughtNumber = 2, totalThoughts = 2, isRevision = False,
       revisesThought = None, branchFromThought = None, branchId = Some ''alt'',
       needsMoreThoughts = True\<rparr>
     \<in> set (thoughtHistory (ledger_after [mk_args ''r'' 1 1 True None,
                                            mk_args ''s'' 2 1 True (Some ''alt'')]))
   \<and> thoughtNumber \<lparr>thought = ''s'', thoughtNumber = 2, totalThoughts = 2, isRevision = False,
       revisesThought = None, branchFromThought = None, branchId = Some ''alt'',
       needsMoreThoughts = True\<rparr>
     \<le> totalThoughts \<lparr>thought = ''s'', thoughtNumber = 2, totalThoughts = 2, isRevision = False,
       revisesThought = None, branchFromThought = None, branchId = Some ''alt'',
       needsMoreThoughts = True\<rparr>"
proof -
  let ?as = "[mk_args ''r'' 1 1 True None, mk_args ''s'' 2 1 True (Some ''alt'')]"
  let ?e = "\<lparr>thought = ''s'', thoughtNumber = 2, totalThoughts = 2, isRevision = False,
               revisesThought = None, branchFromThought = None, branchId = Some ''alt'',
               needsMoreThoughts = True\<rparr>"
  have h: "thoughtHistory (ledger_after ?as) =
      [\<lparr>thought = ''r'', thoughtNumber = 1, totalThoughts = 1, isRevision = False,
               revisesThought = None, branchFromThought = None, branchId = None,
               needsMoreThoughts = True\<rparr>, ?e]" by code_simp
  then have m: "?e \<in> set (thoughtHistory (ledger_after ?as))" by simp
  from history_totals [of ?as] m show ?thesis by blast
qed




text \<open>
  C9. The end-to-end scenario: three submissions on the empty ledger and their three
  summaries.
\<close>

theorem end_to_end_scenario:
  "responses
     [mk_args ''step1'' 1 3 True None,
      mk_args ''step2-alt'' 2 3 True (Some ''alt''),
      mk_args ''step4'' 4 3 False None] =
     [Inr \<lparr>out_thoughtNumber = 1, out_totalThoughts = 3, nextThoughtNeeded = True,
           out_branches = [], thoughtHistoryLength = 1\<rparr>,
      Inr \<lparr>out_thoughtNumber = 2, out_totalThoughts = 3, nextThoughtNeeded = True,
           out_branches = [''alt''], thoughtHistoryLength = 2\<rparr>,
      Inr \<lparr>out_thoughtNumber = 4, out_totalThoughts = 4, nextThoughtNeeded = False,
           out_branches = [''alt''], thoughtHistoryLength = 3\<rparr>]"
  by code_simp

text \<open>
  C10 fails on the code for the label \<^verbatim>\<open>"toString"\<close>: after one submission under it the
  history holds the entry, and \<^verbatim>\<open>branches\<close> holds no sequence for the label (the read
  \<^verbatim>\<open>branches["toString"]\<close> yields the inherited function). For every label that is not
  the name of a member of \<^verbatim>\<open>Object.prototype\<close> the property holds, by \<open>branch_contents\<close>.
\<close>

theorem inherited_label_not_filed:
  "thoughtHistory (ledger_after [mk_args ''t'' 1 1 False (Some ''toString'')]) =
     [\<lparr>thought = ''t'', thoughtNumber = 1, totalThoughts = 1, isRevision = False,
       revisesThought = None, branchFromThought = None, branchId = Some ''toString'',
       needsMoreThoughts = False\<rparr>]
   \<and> filter (\<lambda>e. branchId e = Some ''toString'')
        (thoughtHistory (ledger_after [mk_args ''t'' 1 1 False (Some ''toString'')])) =
     [\<lparr>thought = ''t'', thoughtNumber = 1, totalThoughts = 1, isRevision = False,
       revisesThought = None, branchFromThought = None, branchId = Some ''toString'',
       needsMoreThoughts = False\<rparr>]
   \<and> branches (ledger_after [mk_args ''t'' 1 1 False (Some ''toString'')]) = []
   \<and> get_prop (branches (ledger_after [mk_args ''t'' 1 1 False (Some ''toString'')]))
        ''toString'' = Inherited"
  by code_simp

end
